theory Spec2Isabelle
  imports Main
begin

section \<open>Chunk metadata written to the vector index\<close>

text \<open>
  The sanitising code of \<^verbatim>\<open>mcp_knowledge_core.py\<close> (lines 149-171, quoted in
  \<^verbatim>\<open>CHAT_SUMMARY_MCP_ORGANIZATIONAL_SERVERS.md\<close>):
  \<^verbatim>\<open>
  chunk_metadata = {
      'source': str(chunk.get('source', '')),
      'chunk_type': str(chunk.get('chunk_type', 'unknown')),
      'timestamp': datetime.now().isoformat(),
      'text_length': len(text)
  }
  if chunk.get('page') is not None:
      chunk_metadata['page'] = int(chunk.get('page'))
  if chunk.get('chunk_id') is not None:
      chunk_metadata['chunk_id'] = str(chunk.get('chunk_id'))
  \<close>
\<close>

subsection \<open>Python values\<close>

text \<open>
  A float is \<open>m * 2 ^ e\<close>, an infinity (\<open>Inf True\<close> is the negative one) or not-a-number.
  \<open>PObj r\<close> is an object of any other type (a list, a dict, ...) whose \<^verbatim>\<open>str()\<close> is
  \<open>r\<close>; it has no conversion to \<^verbatim>\<open>int\<close>.
\<close>

datatype pyfloat = Finite int int | Inf bool | NaN

datatype pyval =
    PNone
  | PBool bool
  | PInt int
  | PFloat pyfloat
  | PStr string
  | PObj string

datatype py_exc = ValueError | TypeError | OverflowError

text \<open>
  What the interpreter supplies and the snippet does not define: the \<^verbatim>\<open>repr\<close> of a
  float, the integer a string denotes for \<^verbatim>\<open>int()\<close> (\<open>None\<close> when it denotes none),
  and the reading of the clock, already in ISO format.
\<close>

record py_env =
  float_repr :: "pyfloat \<Rightarrow> string"
  int_of_str :: "string \<Rightarrow> int option"
  now_isoformat :: string

type_synonym pydict = "string \<rightharpoonup> pyval"

text \<open>\<^verbatim>\<open>d.get(k, default)\<close> and \<^verbatim>\<open>d.get(k)\<close>, whose default is \<^verbatim>\<open>None\<close>.\<close>

definition get_default :: "pydict \<Rightarrow> string \<Rightarrow> pyval \<Rightarrow> pyval" where
  "get_default d k dflt = (case d k of None \<Rightarrow> dflt | Some v \<Rightarrow> v)"

definition get :: "pydict \<Rightarrow> string \<Rightarrow> pyval" where
  "get d k = get_default d k PNone"

text \<open>Decimal digits of a natural number, and \<^verbatim>\<open>str()\<close> of an \<^verbatim>\<open>int\<close>.\<close>

fun digits :: "nat \<Rightarrow> string" where
  "digits n =
     (if n < 10 then [char_of (48 + n)]
      else digits (n div 10) @ [char_of (48 + n mod 10)])"

declare digits.simps [simp del]

definition str_of_int :: "int \<Rightarrow> string" where
  "str_of_int i = (if i < 0 then CHR ''-'' # digits (nat (- i)) else digits (nat i))"

text \<open>\<^verbatim>\<open>str(v)\<close>: never raises on these values, and \<^verbatim>\<open>str(None)\<close> is the text \<^verbatim>\<open>None\<close>.\<close>

fun py_str :: "py_env \<Rightarrow> pyval \<Rightarrow> string" where
  "py_str env PNone = ''None''"
| "py_str env (PBool b) = (if b then ''True'' else ''False'')"
| "py_str env (PInt i) = str_of_int i"
| "py_str env (PFloat f) = float_repr env f"
| "py_str env (PStr s) = s"
| "py_str env (PObj r) = r"

text \<open>
  \<^verbatim>\<open>int(v)\<close>: a float is truncated towards zero, an infinity raises
  \<^verbatim>\<open>OverflowError\<close>, not-a-number and a string that denotes no integer raise
  \<^verbatim>\<open>ValueError\<close>, \<^verbatim>\<open>None\<close> and other objects raise \<^verbatim>\<open>TypeError\<close>.
\<close>

definition trunc_float :: "int \<Rightarrow> int \<Rightarrow> int" where
  "trunc_float m e =
     (if 0 \<le> e then m * 2 ^ nat e
      else if 0 \<le> m then m div 2 ^ nat (- e)
      else - ((- m) div 2 ^ nat (- e)))"

fun py_int :: "py_env \<Rightarrow> pyval \<Rightarrow> py_exc + int" where
  "py_int env PNone = Inl TypeError"
| "py_int env (PBool b) = Inr (if b then 1 else 0)"
| "py_int env (PInt i) = Inr i"
| "py_int env (PFloat (Finite m e)) = Inr (trunc_float m e)"
| "py_int env (PFloat (Inf neg)) = Inl OverflowError"
| "py_int env (PFloat NaN) = Inl ValueError"
| "py_int env (PStr s) = (case int_of_str env s of None \<Rightarrow> Inl ValueError | Some i \<Rightarrow> Inr i)"
| "py_int env (PObj r) = Inl TypeError"

subsection \<open>The payload\<close>

text \<open>
  The dict literal first; then the two optional keys, in the order of the source. The
  only call that can raise is \<^verbatim>\<open>int(chunk.get('page'))\<close>, and it raises before
  \<^verbatim>\<open>chunk_id\<close> is looked at. The text is the list of its characters, so that
  \<^verbatim>\<open>len(text)\<close> is its length.
\<close>

definition base_metadata :: "py_env \<Rightarrow> pydict \<Rightarrow> string \<Rightarrow> pydict" where
  "base_metadata env chunk text =
     [''source'' \<mapsto> PStr (py_str env (get_default chunk ''source'' (PStr ''''))),
      ''chunk_type'' \<mapsto> PStr (py_str env (get_default chunk ''chunk_type'' (PStr ''unknown''))),
      ''timestamp'' \<mapsto> PStr (now_isoformat env),
      ''text_length'' \<mapsto> PInt (int (length text))]"

definition add_page :: "py_env \<Rightarrow> pydict \<Rightarrow> pydict \<Rightarrow> py_exc + pydict" where
  "add_page env chunk md =
     (if get chunk ''page'' \<noteq> PNone
      then (case py_int env (get chunk ''page'') of
              Inl exc \<Rightarrow> Inl exc
            | Inr i \<Rightarrow> Inr (md(''page'' \<mapsto> PInt i)))
      else Inr md)"

definition add_chunk_id :: "py_env \<Rightarrow> pydict \<Rightarrow> pydict \<Rightarrow> pydict" where
  "add_chunk_id env chunk md =
     (if get chunk ''chunk_id'' \<noteq> PNone
      then md(''chunk_id'' \<mapsto> PStr (py_str env (get chunk ''chunk_id'')))
      else md)"

definition chunk_metadata :: "py_env \<Rightarrow> pydict \<Rightarrow> string \<Rightarrow> py_exc + pydict" where
  "chunk_metadata env chunk text =
     (case add_page env chunk (base_metadata env chunk text) of
        Inl exc \<Rightarrow> Inl exc
      | Inr md \<Rightarrow> Inr (add_chunk_id env chunk md))"

text \<open>The types the index accepts for a metadata value: bool, int, float, str.\<close>

fun is_scalar :: "pyval \<Rightarrow> bool" where
  "is_scalar (PBool b) = True"
| "is_scalar (PInt i) = True"
| "is_scalar (PFloat f) = True"
| "is_scalar (PStr s) = True"
| "is_scalar PNone = False"
| "is_scalar (PObj r) = False"

text \<open>An interpreter for the examples: it reads plain decimal digit strings only.\<close>

fun digit_val :: "char \<Rightarrow> nat option" where
  "digit_val c =
     (let n = of_char c :: nat in if 48 \<le> n \<and> n \<le> 57 then Some (n - 48) else None)"

fun read_digits :: "nat \<Rightarrow> string \<Rightarrow> nat option" where
  "read_digits acc [] = Some acc"
| "read_digits acc (c # cs) =
     (case digit_val c of None \<Rightarrow> None | Some d \<Rightarrow> read_digits (10 * acc + d) cs)"

definition decimal :: "string \<Rightarrow> int option" where
  "decimal s = (if s = [] then None else map_option int (read_digits 0 s))"

definition example_env :: py_env where
  "example_env =
     \<lparr>float_repr = (\<lambda>f. case f of NaN \<Rightarrow> ''nan'' | Inf neg \<Rightarrow> (if neg then ''-inf'' else ''inf'')
                         | Finite m e \<Rightarrow> str_of_int (trunc_float m e) @ ''.0''),
      int_of_str = decimal,
      now_isoformat = ''2025-06-09T10:00:00''\<rparr>"

section \<open>The search hook of the admin dashboard\<close>

text \<open>
  \<^verbatim>\<open>useSearch\<close> (hooks, file \<^verbatim>\<open>unnamed/part_007\<close>):
  \<^verbatim>\<open>
  const [results, setResults] = useState([]);
  const [loading, setLoading] = useState(false);
  const [error, setError] = useState(null);
  useEffect(() => {
      if (!query) { setResults([]); return; }
      const search = async () => {
          setLoading(true);
          setError(null);
          try { const data = await fetchSearchResults(query); setResults(data); }
          catch (err) { setError(err); }
          finally { setLoading(false); }
      };
      search();
  }, [query]);
  return { results, loading, error };
  \<close>
  The query is the search string, or \<^verbatim>\<open>undefined\<close> or \<^verbatim>\<open>null\<close> when the caller has none.
  \<^verbatim>\<open>fetchSearchResults\<close> lives in \<^verbatim>\<open>services/api\<close>, which the repository does not
  hold: it is a parameter. Its promise resolves with the data, \<open>Inr data\<close>, or is
  rejected with a reason, \<open>Inl reason\<close>; the reason is \<open>None\<close> when the promise is
  rejected with \<^verbatim>\<open>null\<close> or \<^verbatim>\<open>undefined\<close>, and \<^verbatim>\<open>setError(err)\<close> stores the reason as it is.
\<close>

datatype query = Undefined | Null | Str string

fun falsy :: "query \<Rightarrow> bool" where
  "falsy Undefined = True"
| "falsy Null = True"
| "falsy (Str s) = (s = [])"

record ('r, 'e) search_state =
  results :: "'r list"
  loading :: bool
  error :: "'e option"

definition initial_state :: "('r, 'e) search_state" where
  "initial_state = \<lparr>results = [], loading = False, error = None\<rparr>"

datatype ('r, 'e) action =
    SetResults "'r list"
  | SetLoading bool
  | SetError "'e option"
  | Fetch query

fun apply_action :: "('r, 'e) search_state \<Rightarrow> ('r, 'e) action \<Rightarrow> ('r, 'e) search_state" where
  "apply_action st (SetResults rs) = st\<lparr>results := rs\<rparr>"
| "apply_action st (SetLoading b) = st\<lparr>loading := b\<rparr>"
| "apply_action st (SetError e) = st\<lparr>error := e\<rparr>"
| "apply_action st (Fetch q) = st"

text \<open>
  The statements a run of the effect executes at once, up to the \<^verbatim>\<open>await\<close>: on a falsy
  query \<^verbatim>\<open>setResults([])\<close> and the return; otherwise \<^verbatim>\<open>setLoading(true)\<close>,
  \<^verbatim>\<open>setError(null)\<close> and the call of \<^verbatim>\<open>fetchSearchResults\<close>.
\<close>

definition effect_start :: "query \<Rightarrow> ('r, 'e) action list" where
  "effect_start q =
     (if falsy q then [SetResults []]
      else [SetLoading True, SetError None, Fetch q])"

text \<open>
  The statements the same run executes later, when its request has settled: the
  \<^verbatim>\<open>try\<close> or the \<^verbatim>\<open>catch\<close> branch, then \<^verbatim>\<open>finally\<close>.
\<close>

definition effect_settled :: "'e option + 'r list \<Rightarrow> ('r, 'e) action list" where
  "effect_settled outcome =
     (case outcome of
        Inr data \<Rightarrow> [SetResults data]
      | Inl err \<Rightarrow> [SetError err])
     @ [SetLoading False]"

text \<open>All statements of one run of the effect, in the order of the program.\<close>

definition search_effect ::
  "(query \<Rightarrow> 'e option + 'r list) \<Rightarrow> query \<Rightarrow> ('r, 'e) action list" where
  "search_effect fetchSearchResults q =
     effect_start q @ (if falsy q then [] else effect_settled (fetchSearchResults q))"

fun backend_requests :: "('r, 'e) action list \<Rightarrow> query list" where
  "backend_requests [] = []"
| "backend_requests (Fetch q # as) = q # backend_requests as"
| "backend_requests (a # as) = backend_requests as"

fun loading_transitions :: "('r, 'e) action list \<Rightarrow> bool list" where
  "loading_transitions [] = []"
| "loading_transitions (SetLoading b # as) = b # loading_transitions as"
| "loading_transitions (a # as) = loading_transitions as"

fun error_updates :: "('r, 'e) action list \<Rightarrow> 'e option list" where
  "error_updates [] = []"
| "error_updates (SetError e # as) = e # error_updates as"
| "error_updates (a # as) = error_updates as"

text \<open>
  The hook over time. The effect has no cleanup and no guard against a late response,
  so the requests of earlier runs stay in flight while later runs start, and each is
  applied to the state as it is when it settles. \<open>Run q\<close>: the effect runs for the query
  \<open>q\<close> (on mount, and whenever the query has changed). \<open>Settle i outcome\<close>: the request
  at position \<open>i\<close> of those in flight settles with \<open>outcome\<close>.
\<close>

record ('r, 'e) hook =
  hook_state :: "('r, 'e) search_state"
  in_flight :: "query list"

datatype ('r, 'e) hook_event = Run query | Settle nat "'e option + 'r list"

fun hook_step :: "('r, 'e) hook \<Rightarrow> ('r, 'e) hook_event \<Rightarrow> ('r, 'e) hook" where
  "hook_step h (Run q) =
     \<lparr>hook_state = foldl apply_action (hook_state h) (effect_start q),
      in_flight = in_flight h @ backend_requests (effect_start q :: ('r, 'e) action list)\<rparr>"
| "hook_step h (Settle i outcome) =
     (if i < length (in_flight h)
      then \<lparr>hook_state = foldl apply_action (hook_state h) (effect_settled outcome),
            in_flight = take i (in_flight h) @ drop (Suc i) (in_flight h)\<rparr>
      else h)"

text \<open>
  What the hook returns after the effect has run for \<open>q\<close> on a hook in state \<open>st\<close> with
  nothing in flight, and the request of that run, if it made one, has settled before
  anything else happens.
\<close>

definition useSearch ::
  "(query \<Rightarrow> 'e option + 'r list) \<Rightarrow> ('r, 'e) search_state \<Rightarrow> query \<Rightarrow> ('r, 'e) search_state" where
  "useSearch fetchSearchResults st q =
     hook_state (foldl hook_step \<lparr>hook_state = st, in_flight = []\<rparr>
                   [Run q, Settle 0 (fetchSearchResults q)])"

section \<open>Metadata store and ingestion coordinator, from the specification\<close>

text \<open>
  The Metadata Store, the Vector Index and the Ingestion Coordinator are code of
  \<^verbatim>\<open>mcp_knowledge_core.py\<close>, which is not among the sources. The definitions of this
  section follow the words of the specification (its sections 3, 4.4 to 4.6 and 5) for
  the store and the coordinator of one domain.
\<close>

type_synonym hash = string
type_synonym bytes = string

text \<open>
  Modelled from the spec: the processing status of a Document (the status column of the
  absent Metadata Store), \<^verbatim>\<open>received, extracting, chunking, embedding, indexed, failed\<close>.
\<close>

datatype status = Received | Extracting | Chunking | Embedding | Indexed | Failed

text \<open>
  Modelled from the spec: the order in which section 3 lists the statuses, the state
  machine of the absent coordinator (\<^verbatim>\<open>received -> extracting -> chunking -> embedding ->
  indexed -> failed\<close>).
\<close>

fun rank :: "status \<Rightarrow> nat" where
  "rank Received = 0"
| "rank Extracting = 1"
| "rank Chunking = 2"
| "rank Embedding = 3"
| "rank Indexed = 4"
| "rank Failed = 5"

text \<open>Modelled from the spec: the terminal states of the absent state machine, \<^verbatim>\<open>indexed\<close> and \<^verbatim>\<open>failed\<close>.\<close>

definition terminal :: "status \<Rightarrow> bool" where
  "terminal s = (s = Indexed \<or> s = Failed)"

datatype store_error = StaleStatusTransition

text \<open>
  Modelled from the spec: a row of the absent Metadata Store's table: content hash,
  original filename, size, processing status, error detail if failed.
\<close>

record document =
  doc_hash :: hash
  filename :: string
  doc_size :: nat
  doc_status :: status
  error_detail :: "string option"

text \<open>Modelled from the spec: \<^verbatim>\<open>get_by_hash(hash) -> Document|absent\<close> of the absent Metadata Store.\<close>

definition get_by_hash :: "document list \<Rightarrow> hash \<Rightarrow> document option" where
  "get_by_hash rows h = find (\<lambda>d. doc_hash d = h) rows"

text \<open>
  Modelled from the spec: \<^verbatim>\<open>upsert_document\<close> of the absent Metadata Store, insert or
  replace on the content hash.
\<close>

definition upsert_document :: "document list \<Rightarrow> document \<Rightarrow> document list" where
  "upsert_document rows d =
     (if get_by_hash rows (doc_hash d) = None then rows @ [d]
      else map (\<lambda>r. if doc_hash r = doc_hash d then d else r) rows)"

text \<open>
  Modelled from the spec: which update of the absent \<^verbatim>\<open>update_status\<close> is out of order.
  ``Out-of-order status regression must be rejected with \<^verbatim>\<open>StaleStatusTransition\<close>'', and
  \<^verbatim>\<open>indexed\<close> and \<^verbatim>\<open>failed\<close> are terminal: an update is stale when the stored status is
  terminal or the new status comes earlier in the chain than the stored one.
\<close>

definition stale :: "status \<Rightarrow> status \<Rightarrow> bool" where
  "stale cur new = (terminal cur \<or> rank new < rank cur)"

text \<open>
  Modelled from the spec: \<^verbatim>\<open>update_status(hash, status, error=None)\<close> of the absent
  Metadata Store. A stale update is rejected and the table is left as it was; an update
  for a hash without a row changes no row.
\<close>

definition update_status ::
  "document list \<Rightarrow> hash \<Rightarrow> status \<Rightarrow> string option \<Rightarrow> store_error option \<times> document list" where
  "update_status rows h new err =
     (case get_by_hash rows h of
        None \<Rightarrow> (None, rows)
      | Some d \<Rightarrow>
          if stale (doc_status d) new then (Some StaleStatusTransition, rows)
          else (None, map (\<lambda>r. if doc_hash r = h
                                then r\<lparr>doc_status := new, error_detail := err\<rparr> else r) rows))"

text \<open>Modelled from the spec: a sequence of status updates reaching the absent store one after the other.\<close>

fun apply_updates :: "document list \<Rightarrow> (hash \<times> status \<times> string option) list \<Rightarrow> document list" where
  "apply_updates rows [] = rows"
| "apply_updates rows ((h, s, err) # us) = apply_updates (snd (update_status rows h s err)) us"

text \<open>
  Modelled from the spec: the absent Vector Index, a list of entries under their chunk
  identity (document hash, sequence index); \<^verbatim>\<open>upsert\<close> inserts or replaces,
  \<^verbatim>\<open>delete_by_document\<close> removes the entries of one document.
\<close>

type_synonym 'c entry = "(hash \<times> nat) \<times> 'c"

fun upsert :: "'c entry list \<Rightarrow> hash \<times> nat \<Rightarrow> 'c \<Rightarrow> 'c entry list" where
  "upsert [] cid v = [(cid, v)]"
| "upsert ((k, w) # es) cid v = (if k = cid then (cid, v) # es else (k, w) # upsert es cid v)"

definition delete_by_document :: "'c entry list \<Rightarrow> hash \<Rightarrow> 'c entry list" where
  "delete_by_document idx h = filter (\<lambda>e. fst (fst e) \<noteq> h) idx"

definition chunks_of :: "'c entry list \<Rightarrow> hash \<Rightarrow> 'c entry list" where
  "chunks_of idx h = filter (\<lambda>e. fst (fst e) = h) idx"

text \<open>Modelled from the spec: the batch upsert of all chunks of one document into the absent index.\<close>

fun upsert_all :: "'c entry list \<Rightarrow> hash \<Rightarrow> nat \<Rightarrow> 'c list \<Rightarrow> 'c entry list" where
  "upsert_all idx h i [] = idx"
| "upsert_all idx h i (v # vs) = upsert_all (upsert idx (h, i) v) h (Suc i) vs"

text \<open>
  Modelled from the spec: the stages of the absent pipeline (extraction, chunking,
  embedding, index write), and what the pluggable services do with given bytes: some
  stage fails with an error message, or all succeed and produce the chunks to index.
\<close>

datatype stage = Extract | Chunk | Embed | Index

datatype 'c outcome = Fails stage string | Produces "'c list"

text \<open>
  Modelled from the spec: the state of the absent Ingestion Coordinator of one domain:
  the store, the index, the uploads recorded as \<^verbatim>\<open>received\<close> that wait for the worker,
  and the stages run so far.
\<close>

record 'c coordinator =
  store :: "document list"
  vindex :: "'c entry list"
  queue :: "(hash \<times> bytes) list"
  stage_log :: "(hash \<times> stage) list"

text \<open>
  Modelled from the spec: the absent coordinator records an accepted upload, ``create or
  overwrite the record'' in state \<^verbatim>\<open>received\<close>, and leaves the processing to the worker.
\<close>

definition accept_upload ::
  "'c coordinator \<Rightarrow> hash \<Rightarrow> string \<Rightarrow> bytes \<Rightarrow> document \<times> 'c coordinator" where
  "accept_upload c h fname b =
     (let d = \<lparr>doc_hash = h, filename = fname, doc_size = length b,
               doc_status = Received, error_detail = None\<rparr>
      in (d, c\<lparr>store := upsert_document (store c) d, queue := queue c @ [(h, b)]\<rparr>))"

text \<open>
  Modelled from the spec: the upload transition of the absent coordinator. ``Compute
  hash; if a Document with that hash already exists in state \<^verbatim>\<open>indexed\<close>, short-circuit
  and return the existing record; otherwise create or overwrite the record''; a
  \<^verbatim>\<open>failed\<close> prior record does not short-circuit; an upload of a hash that is in flight
  defers to the first (``never double-processes''). \<open>H\<close> is the content hash.
\<close>

definition upload ::
  "(bytes \<Rightarrow> hash) \<Rightarrow> 'c coordinator \<Rightarrow> string \<Rightarrow> bytes \<Rightarrow> document \<times> 'c coordinator" where
  "upload H c fname b =
     (let h = H b in
      case get_by_hash (store c) h of
        None \<Rightarrow> accept_upload c h fname b
      | Some d \<Rightarrow>
          if doc_status d = Indexed then (d, c)
          else if doc_status d = Failed then accept_upload c h fname b
          else (d, c))"

text \<open>
  Modelled from the spec: the absent pipeline. Each stage is entered with its status
  (the index write runs while the document is still \<^verbatim>\<open>embedding\<close>); a failing stage
  moves the document to \<^verbatim>\<open>failed\<close> with the message and no later stage runs; when all
  succeed the chunks replace the document's entries in the index in one batch, and only
  then the status becomes \<^verbatim>\<open>indexed\<close>. A rejected status update is ignored.
\<close>

fun status_during :: "stage \<Rightarrow> status" where
  "status_during Extract = Extracting"
| "status_during Chunk = Chunking"
| "status_during Embed = Embedding"
| "status_during Index = Embedding"

fun stages_upto :: "stage \<Rightarrow> stage list" where
  "stages_upto Extract = [Extract]"
| "stages_upto Chunk = [Extract, Chunk]"
| "stages_upto Embed = [Extract, Chunk, Embed]"
| "stages_upto Index = [Extract, Chunk, Embed, Index]"

definition set_status :: "'c coordinator \<Rightarrow> hash \<Rightarrow> status \<Rightarrow> string option \<Rightarrow> 'c coordinator" where
  "set_status c h s err = c\<lparr>store := snd (update_status (store c) h s err)\<rparr>"

definition begin_stage :: "hash \<Rightarrow> stage \<Rightarrow> 'c coordinator \<Rightarrow> 'c coordinator" where
  "begin_stage h st c =
     (set_status c h (status_during st) None)\<lparr>stage_log := stage_log c @ [(h, st)]\<rparr>"

definition commit :: "'c coordinator \<Rightarrow> hash \<Rightarrow> 'c list \<Rightarrow> 'c coordinator" where
  "commit c h vs = c\<lparr>vindex := upsert_all (delete_by_document (vindex c) h) h 0 vs\<rparr>"

definition run_pipeline ::
  "(bytes \<Rightarrow> 'c outcome) \<Rightarrow> 'c coordinator \<Rightarrow> hash \<Rightarrow> bytes \<Rightarrow> 'c coordinator" where
  "run_pipeline P c h b =
     (case P b of
        Fails st msg \<Rightarrow> set_status (fold (begin_stage h) (stages_upto st) c) h Failed (Some msg)
      | Produces vs \<Rightarrow>
          set_status (commit (fold (begin_stage h) (stages_upto Index) c) h vs) h Indexed None)"

text \<open>Modelled from the spec: the absent worker takes the oldest waiting upload and runs the pipeline on it.\<close>

definition process_next :: "(bytes \<Rightarrow> 'c outcome) \<Rightarrow> 'c coordinator \<Rightarrow> 'c coordinator" where
  "process_next P c =
     (case queue c of
        [] \<Rightarrow> c
      | (h, b) # rest \<Rightarrow> run_pipeline P (c\<lparr>queue := rest\<rparr>) h b)"

definition empty_coordinator :: "'c coordinator" where
  "empty_coordinator = \<lparr>store = [], vindex = [], queue = [], stage_log = []\<rparr>"

text \<open>
  Modelled from the spec: what reaches the absent coordinator over time: uploads
  (filename and bytes) and steps of the worker, in any order.
\<close>

datatype event = Upload string bytes | Work

fun run_events ::
  "(bytes \<Rightarrow> hash) \<Rightarrow> (bytes \<Rightarrow> 'c outcome) \<Rightarrow> 'c coordinator \<Rightarrow> event list \<Rightarrow> 'c coordinator" where
  "run_events H P c [] = c"
| "run_events H P c (Upload fname b # es) = run_events H P (snd (upload H c fname b)) es"
| "run_events H P c (Work # es) = run_events H P (process_next P c) es"

section \<open>Example inputs\<close>

text \<open>Concrete inputs on which the theorems below are instantiated.\<close>

definition example_chunk :: pydict where
  "example_chunk = [''source'' \<mapsto> PStr ''spec.pdf'', ''page'' \<mapsto> PStr ''12'']"

definition example_payload :: pydict where
  "example_payload =
     [''source'' \<mapsto> PStr ''spec.pdf'', ''chunk_type'' \<mapsto> PStr ''unknown'',
      ''timestamp'' \<mapsto> PStr ''2025-06-09T10:00:00'', ''text_length'' \<mapsto> PInt 3,
      ''page'' \<mapsto> PInt 12]"

definition example_rows :: "document list" where
  "example_rows =
     [\<lparr>doc_hash = ''h1'', filename = ''spec.pdf'', doc_size = 9, doc_status = Embedding,
       error_detail = None\<rparr>]"

definition sha :: "bytes \<Rightarrow> hash" where
  "sha b = ''sha:'' @ b"

definition two_chunks :: "bytes \<Rightarrow> string outcome" where
  "two_chunks b = Produces [''he'', ''llo'']"

definition indexed_hello :: "string coordinator" where
  "indexed_hello =
     \<lparr>store = [\<lparr>doc_hash = ''sha:hello'', filename = ''a.txt'', doc_size = 5,
                doc_status = Indexed, error_detail = None\<rparr>],
      vindex = [((''sha:hello'', 0), ''he''), ((''sha:hello'', 1), ''llo'')],
      queue = [],
      stage_log = [(''sha:hello'', Extract), (''sha:hello'', Chunk), (''sha:hello'', Embed),
                   (''sha:hello'', Index)]\<rparr>"

definition failed_bad :: "string coordinator" where
  "failed_bad =
     \<lparr>store = [\<lparr>doc_hash = ''sha:bad'', filename = ''x.txt'', doc_size = 3,
                doc_status = Failed, error_detail = Some ''corrupt PDF''\<rparr>],
      vindex = [],
      queue = [],
      stage_log = [(''sha:bad'', Extract)]\<rparr>"

section \<open>Properties of the chunk metadata\<close>

lemma get_absent: "chunk k = None \<Longrightarrow> get chunk k = PNone"
  by (simp add: get_def get_default_def)

lemma base_metadata_dom:
  "dom (base_metadata env chunk text) = {''source'', ''chunk_type'', ''timestamp'', ''text_length''}"
  by (auto simp: base_metadata_def split: if_splits)

lemma base_metadata_scalar: "base_metadata env chunk text k = Some v \<Longrightarrow> is_scalar v"
  by (auto simp: base_metadata_def split: if_splits)

lemma add_page_scalar:
  assumes "add_page env chunk md = Inr md'" and "\<And>k v. md k = Some v \<Longrightarrow> is_scalar v"
    and "md' k = Some v"
  shows "is_scalar v"
  using assms by (auto simp: add_page_def split: if_splits sum.splits)

lemma add_chunk_id_scalar:
  assumes "\<And>k v. md k = Some v \<Longrightarrow> is_scalar v" and "add_chunk_id env chunk md k = Some v"
  shows "is_scalar v"
  using assms by (auto simp: add_chunk_id_def split: if_splits)

lemma chunk_metadata_Inr:
  assumes "chunk_metadata env chunk text = Inr md"
  obtains md' where "add_page env chunk (base_metadata env chunk text) = Inr md'"
    and "md = add_chunk_id env chunk md'"
  using assms by (auto simp: chunk_metadata_def split: sum.splits)

lemma fields_are_scalar:
  assumes "chunk_metadata env chunk text = Inr md" and "md k = Some v"
  shows "is_scalar v"
proof -
  from assms(1) obtain md' where
    p: "add_page env chunk (base_metadata env chunk text) = Inr md'" and
    c: "md = add_chunk_id env chunk md'"
    by (rule chunk_metadata_Inr)
  have "\<And>k v. md' k = Some v \<Longrightarrow> is_scalar v"
    using add_page_scalar [OF p] base_metadata_scalar by blast
  then show ?thesis
    using add_chunk_id_scalar assms(2) c by blast
qed

lemma two_more_keys:
  "A \<subseteq> insert p B \<Longrightarrow> C \<subseteq> insert q A \<Longrightarrow> B = {a, b, c, d} \<Longrightarrow> C \<subseteq> {a, b, c, d, p, q}"
  by blast

lemma payload_dom:
  assumes "chunk_metadata env chunk text = Inr md"
  shows "dom md \<subseteq> {''source'', ''chunk_type'', ''timestamp'', ''text_length'', ''page'', ''chunk_id''}"
proof -
  from assms obtain md' where
    p: "add_page env chunk (base_metadata env chunk text) = Inr md'" and
    c: "md = add_chunk_id env chunk md'"
    by (rule chunk_metadata_Inr)
  from p have "dom md' \<subseteq> insert ''page'' (dom (base_metadata env chunk text))"
    by (auto simp: add_page_def split: if_splits sum.splits)
  moreover from c have "dom md \<subseteq> insert ''chunk_id'' (dom md')"
    by (auto simp: add_chunk_id_def split: if_splits)
  ultimately show ?thesis
    using base_metadata_dom by (rule two_more_keys)
qed

lemma payload_page:
  assumes "chunk_metadata env chunk text = Inr md"
  shows "md ''page'' = (if get chunk ''page'' = PNone then None
                        else map_option PInt (case py_int env (get chunk ''page'') of
                                                Inl exc \<Rightarrow> None | Inr i \<Rightarrow> Some i))"
  using assms
  by (auto simp: chunk_metadata_def add_page_def add_chunk_id_def base_metadata_def
           split: sum.splits if_splits)

lemma payload_page_int:
  assumes "chunk_metadata env chunk text = Inr md" and "get chunk ''page'' \<noteq> PNone"
  shows "\<exists>i. py_int env (get chunk ''page'') = Inr i \<and> md ''page'' = Some (PInt i)"
  using assms
  by (auto simp: chunk_metadata_def add_page_def add_chunk_id_def base_metadata_def
           split: sum.splits if_splits)

lemma payload_chunk_id:
  assumes "chunk_metadata env chunk text = Inr md"
  shows "md ''chunk_id'' = (if get chunk ''chunk_id'' = PNone then None
                            else Some (PStr (py_str env (get chunk ''chunk_id''))))"
  using assms
  by (auto simp: chunk_metadata_def add_page_def add_chunk_id_def base_metadata_def
           split: sum.splits if_splits)

lemma payload_mandatory:
  assumes "chunk_metadata env chunk text = Inr md"
  shows "md ''source'' = Some (PStr (py_str env (get_default chunk ''source'' (PStr ''''))))"
    and "md ''chunk_type'' = Some (PStr (py_str env (get_default chunk ''chunk_type'' (PStr ''unknown''))))"
    and "md ''timestamp'' = Some (PStr (now_isoformat env))"
    and "md ''text_length'' = Some (PInt (int (length text)))"
  using assms
  by (auto simp: chunk_metadata_def add_page_def add_chunk_id_def base_metadata_def
           split: sum.splits if_splits)

text \<open>
  The sanitiser itself returns a payload exactly when \<^verbatim>\<open>page\<close> is absent, \<^verbatim>\<open>None\<close> or
  convertible by \<^verbatim>\<open>int()\<close>; otherwise \<^verbatim>\<open>int()\<close> raises and nothing is written.
\<close>

lemma chunk_metadata_returns:
  "(\<exists>md. chunk_metadata env chunk text = Inr md) \<longleftrightarrow>
   (get chunk ''page'' = PNone \<or> (\<exists>i. py_int env (get chunk ''page'') = Inr i))"
  by (auto simp: chunk_metadata_def add_page_def split: sum.splits)

lemma chunk_metadata_raises:
  "chunk_metadata env chunk text = Inl exc \<longleftrightarrow>
   (get chunk ''page'' \<noteq> PNone \<and> py_int env (get chunk ''page'') = Inl exc)"
  by (auto simp: chunk_metadata_def add_page_def split: sum.splits)

lemma decimal_12: "decimal ''12'' = Some 12"
  by (simp add: decimal_def)

lemma example_payload_eq: "chunk_metadata example_env example_chunk ''abc'' = Inr example_payload"
  by (simp add: chunk_metadata_def add_page_def add_chunk_id_def base_metadata_def get_def
      get_default_def example_env_def example_chunk_def example_payload_def decimal_12)

text \<open>
  C1, as amended. Every field of a payload the sanitiser returns is a bool, int, float or
  str, none is \<^verbatim>\<open>None\<close>, and the fields are among the six candidates. The optional
  candidates \<^verbatim>\<open>page\<close> and \<^verbatim>\<open>chunk_id\<close> are left out when their value in the chunk is
  absent or \<^verbatim>\<open>None\<close>. \<^verbatim>\<open>source\<close> and \<^verbatim>\<open>chunk_type\<close> are never left out: each is always
  written as a string, and when the chunk lacks the key it is the default \<^verbatim>\<open>''\<close> or
  \<^verbatim>\<open>'unknown'\<close>.
\<close>

theorem payload_scalars_only:
  assumes "chunk_metadata env chunk text = Inr md"
  shows "(\<forall>k v. md k = Some v \<longrightarrow> is_scalar v) \<and>
         (\<forall>k. md k \<noteq> Some PNone) \<and>
         dom md \<subseteq> {''source'', ''chunk_type'', ''timestamp'', ''text_length'', ''page'', ''chunk_id''} \<and>
         (get chunk ''page'' = PNone \<longrightarrow> md ''page'' = None) \<and>
         (get chunk ''chunk_id'' = PNone \<longrightarrow> md ''chunk_id'' = None) \<and>
         (\<exists>s. md ''source'' = Some (PStr s)) \<and>
         (\<exists>s. md ''chunk_type'' = Some (PStr s)) \<and>
         (chunk ''source'' = None \<longrightarrow> md ''source'' = Some (PStr '''')) \<and>
         (chunk ''chunk_type'' = None \<longrightarrow> md ''chunk_type'' = Some (PStr ''unknown''))"
proof -
  have s: "\<forall>k v. md k = Some v \<longrightarrow> is_scalar v"
    using fields_are_scalar [OF assms] by blast
  then have n: "\<forall>k. md k \<noteq> Some PNone"
    by force
  have p: "get chunk ''page'' = PNone \<longrightarrow> md ''page'' = None"
    by (simp add: payload_page [OF assms])
  have c: "get chunk ''chunk_id'' = PNone \<longrightarrow> md ''chunk_id'' = None"
    by (simp add: payload_chunk_id [OF assms])
  note m = payload_mandatory [OF assms]
  have w1: "\<exists>s. md ''source'' = Some (PStr s)"
    using m(1) by blast
  have w2: "\<exists>s. md ''chunk_type'' = Some (PStr s)"
    using m(2) by blast
  have d1: "chunk ''source'' = None \<longrightarrow> md ''source'' = Some (PStr '''')"
    by (simp add: m(1) get_default_def)
  have d2: "chunk ''chunk_type'' = None \<longrightarrow> md ''chunk_type'' = Some (PStr ''unknown'')"
    by (simp add: m(2) get_default_def)
  from s n payload_dom [OF assms] p c w1 w2 d1 d2 show ?thesis
    by (intro conjI)
qed

theorem payload_scalars_only_witness:
  "chunk_metadata example_env example_chunk ''abc'' = Inr example_payload \<and>
   example_payload ''page'' = Some (PInt 12) \<and> is_scalar (PInt 12) \<and>
   get example_chunk ''chunk_id'' = PNone \<and> example_payload ''chunk_id'' = None \<and>
   example_payload ''source'' \<noteq> Some PNone \<and>
   example_payload ''source'' = Some (PStr ''spec.pdf'') \<and>
   example_chunk ''chunk_type'' = None \<and>
   example_payload ''chunk_type'' = Some (PStr ''unknown'')"
proof -
  have h: "chunk_metadata example_env example_chunk ''abc'' = Inr example_payload"
    by (rule example_payload_eq)
  have g: "get example_chunk ''chunk_id'' = PNone"
    by (simp add: get_def get_default_def example_chunk_def)
  have a: "example_chunk ''chunk_type'' = None"
    by (simp add: example_chunk_def)
  have pg: "example_payload ''page'' = Some (PInt 12)"
    by (simp add: example_payload_def)
  have sr: "example_payload ''source'' = Some (PStr ''spec.pdf'')"
    by (simp add: example_payload_def)
  from payload_scalars_only [OF h] g a pg sr h show ?thesis
    by auto
qed

text \<open>
  C1 as stated fails: a candidate field whose value is absent is not always left out. In
  the chunk \<^verbatim>\<open>{'source': None}\<close> the key \<^verbatim>\<open>chunk_type\<close> is absent and the value of
  \<^verbatim>\<open>source\<close> is \<^verbatim>\<open>None\<close>, yet both fields are written: \<^verbatim>\<open>chunk_type\<close> as its default
  \<^verbatim>\<open>unknown\<close>, and \<^verbatim>\<open>source\<close> as the text \<^verbatim>\<open>None\<close> that \<^verbatim>\<open>str(None)\<close> gives.
\<close>

theorem null_source_written_counterexample:
  "get [''source'' \<mapsto> PNone] ''source'' = PNone \<and>
   get [''source'' \<mapsto> PNone] ''chunk_type'' = PNone \<and>
   chunk_metadata example_env [''source'' \<mapsto> PNone] ''abc'' =
     Inr [''source'' \<mapsto> PStr ''None'', ''chunk_type'' \<mapsto> PStr ''unknown'',
          ''timestamp'' \<mapsto> PStr ''2025-06-09T10:00:00'', ''text_length'' \<mapsto> PInt 3]"
  by (simp add: chunk_metadata_def add_page_def add_chunk_id_def base_metadata_def get_def
      get_default_def example_env_def)

text \<open>
  C9. A payload the sanitiser returns always holds \<^verbatim>\<open>source\<close>, \<^verbatim>\<open>chunk_type\<close> and
  \<^verbatim>\<open>timestamp\<close> as strings and \<^verbatim>\<open>text_length\<close> as the integer \<^verbatim>\<open>len(text)\<close>, with the
  defaults \<^verbatim>\<open>''\<close> and \<^verbatim>\<open>'unknown'\<close> when the chunk lacks the key; \<^verbatim>\<open>page\<close> is present
  exactly when the chunk's value is not \<^verbatim>\<open>None\<close>, and is then the integer \<^verbatim>\<open>int()\<close>
  gave; \<^verbatim>\<open>chunk_id\<close> is present exactly when the chunk's value is not \<^verbatim>\<open>None\<close>, and is
  then its \<^verbatim>\<open>str()\<close>.
\<close>

theorem payload_fields:
  assumes "chunk_metadata env chunk text = Inr md"
  shows "(\<exists>s. md ''source'' = Some (PStr s)) \<and>
         (\<exists>s. md ''chunk_type'' = Some (PStr s)) \<and>
         md ''timestamp'' = Some (PStr (now_isoformat env)) \<and>
         md ''text_length'' = Some (PInt (int (length text))) \<and>
         (chunk ''source'' = None \<longrightarrow> md ''source'' = Some (PStr '''')) \<and>
         (chunk ''chunk_type'' = None \<longrightarrow> md ''chunk_type'' = Some (PStr ''unknown'')) \<and>
         (md ''page'' \<noteq> None \<longleftrightarrow> get chunk ''page'' \<noteq> PNone) \<and>
         (get chunk ''page'' \<noteq> PNone \<longrightarrow>
            (\<exists>i. py_int env (get chunk ''page'') = Inr i \<and> md ''page'' = Some (PInt i))) \<and>
         (md ''chunk_id'' \<noteq> None \<longleftrightarrow> get chunk ''chunk_id'' \<noteq> PNone) \<and>
         (get chunk ''chunk_id'' \<noteq> PNone \<longrightarrow>
            md ''chunk_id'' = Some (PStr (py_str env (get chunk ''chunk_id''))))"
proof -
  note m = payload_mandatory [OF assms]
  have d1: "chunk ''source'' = None \<longrightarrow> md ''source'' = Some (PStr '''')"
    by (simp add: m(1) get_default_def)
  have d2: "chunk ''chunk_type'' = None \<longrightarrow> md ''chunk_type'' = Some (PStr ''unknown'')"
    by (simp add: m(2) get_default_def)
  have p2: "get chunk ''page'' \<noteq> PNone \<longrightarrow>
      (\<exists>i. py_int env (get chunk ''page'') = Inr i \<and> md ''page'' = Some (PInt i))"
    using payload_page_int [OF assms] by blast
  have p1: "md ''page'' \<noteq> None \<longleftrightarrow> get chunk ''page'' \<noteq> PNone"
    using p2 by (auto simp: payload_page [OF assms])
  have c1: "md ''chunk_id'' \<noteq> None \<longleftrightarrow> get chunk ''chunk_id'' \<noteq> PNone"
    by (simp add: payload_chunk_id [OF assms])
  have c2: "get chunk ''chunk_id'' \<noteq> PNone \<longrightarrow>
      md ''chunk_id'' = Some (PStr (py_str env (get chunk ''chunk_id'')))"
    by (simp add: payload_chunk_id [OF assms])
  from m d1 d2 p1 p2 c1 c2 show ?thesis by blast
qed

theorem payload_fields_witness:
  "chunk_metadata example_env example_chunk ''abc'' = Inr example_payload \<and>
   example_payload ''source'' = Some (PStr ''spec.pdf'') \<and>
   example_chunk ''chunk_type'' = None \<and>
   example_payload ''chunk_type'' = Some (PStr ''unknown'') \<and>
   example_payload ''text_length'' = Some (PInt 3) \<and>
   get example_chunk ''page'' = PStr ''12'' \<and>
   py_int example_env (PStr ''12'') = Inr 12 \<and>
   example_payload ''page'' = Some (PInt 12) \<and>
   get example_chunk ''chunk_id'' = PNone \<and>
   example_payload ''chunk_id'' = None"
proof -
  have h: "chunk_metadata example_env example_chunk ''abc'' = Inr example_payload"
    by (rule example_payload_eq)
  have g: "get example_chunk ''page'' = PStr ''12''" "get example_chunk ''chunk_id'' = PNone"
    "example_chunk ''chunk_type'' = None"
    by (simp_all add: get_def get_default_def example_chunk_def)
  have e: "py_int example_env (PStr ''12'') = Inr 12"
    by (simp add: example_env_def decimal_12)
  have s: "example_payload ''source'' = Some (PStr ''spec.pdf'')"
    by (simp add: example_payload_def)
  from payload_fields [OF h] g e s h show ?thesis
    by auto
qed

section \<open>Properties of the search hook\<close>

lemma falsy_cases: "falsy q \<longleftrightarrow> q = Undefined \<or> q = Null \<or> q = Str []"
  by (cases q) auto

lemma effect_start_falsy: "falsy q \<Longrightarrow> effect_start q = [SetResults []]"
  by (simp add: effect_start_def)

lemma search_effect_falsy: "falsy q \<Longrightarrow> search_effect fetchSearchResults q = [SetResults []]"
  by (simp add: search_effect_def effect_start_def)

lemma search_effect_resolved:
  "\<not> falsy q \<Longrightarrow> fetchSearchResults q = Inr data \<Longrightarrow>
   search_effect fetchSearchResults q =
     [SetLoading True, SetError None, Fetch q, SetResults data, SetLoading False]"
  by (simp add: search_effect_def effect_start_def effect_settled_def)

lemma search_effect_rejected:
  "\<not> falsy q \<Longrightarrow> fetchSearchResults q = Inl err \<Longrightarrow>
   search_effect fetchSearchResults q =
     [SetLoading True, SetError None, Fetch q, SetError err, SetLoading False]"
  by (simp add: search_effect_def effect_start_def effect_settled_def)

text \<open>A run with nothing else in flight executes the statements of the effect in order.\<close>

lemma useSearch_alone:
  "useSearch fetchSearchResults st q = foldl apply_action st (search_effect fetchSearchResults q)"
  by (simp add: useSearch_def search_effect_def effect_start_def)

lemma useSearch_resolved:
  "\<not> falsy q \<Longrightarrow> fetchSearchResults q = Inr data \<Longrightarrow>
   useSearch fetchSearchResults st q = st\<lparr>results := data, loading := False, error := None\<rparr>"
  by (simp add: useSearch_alone search_effect_resolved)

text \<open>
  A rejection stores its reason and leaves the results as they were; a rejection with
  \<^verbatim>\<open>null\<close> or \<^verbatim>\<open>undefined\<close> as its reason stores no error.
\<close>

lemma useSearch_rejected:
  "\<not> falsy q \<Longrightarrow> fetchSearchResults q = Inl err \<Longrightarrow>
   useSearch fetchSearchResults st q = st\<lparr>loading := False, error := err\<rparr>"
  by (simp add: useSearch_alone search_effect_rejected)

lemma backend_requests_truthy:
  "\<not> falsy q \<Longrightarrow> backend_requests (search_effect fetchSearchResults q) = [q]"
  by (cases "fetchSearchResults q") (simp_all add: search_effect_resolved search_effect_rejected)

text \<open>The backend is asked exactly for the queries that are not falsy.\<close>

lemma backend_requests_iff:
  "backend_requests (search_effect fetchSearchResults q) = (if falsy q then [] else [q])"
  by (simp add: backend_requests_truthy search_effect_falsy)

lemma run_falsy:
  "falsy q \<Longrightarrow> hook_step h (Run q) = h\<lparr>hook_state := (hook_state h)\<lparr>results := []\<rparr>\<rparr>"
  by (simp add: effect_start_def)

lemma run_truthy:
  "\<not> falsy q \<Longrightarrow>
   hook_step h (Run q) =
     \<lparr>hook_state = (hook_state h)\<lparr>loading := True, error := None\<rparr>,
      in_flight = in_flight h @ [q]\<rparr>"
  by (simp add: effect_start_def)

text \<open>A request that settles is applied to the state of that moment, whichever run made it.\<close>

lemma settle_resolved:
  "i < length (in_flight h) \<Longrightarrow>
   hook_state (hook_step h (Settle i (Inr data))) =
     (hook_state h)\<lparr>results := data, loading := False\<rparr>"
  by (simp add: effect_settled_def)

lemma settle_rejected:
  "i < length (in_flight h) \<Longrightarrow>
   hook_state (hook_step h (Settle i (Inl err))) =
     (hook_state h)\<lparr>error := err, loading := False\<rparr>"
  by (simp add: effect_settled_def)

text \<open>
  C10. On a falsy query (\<^verbatim>\<open>undefined\<close>, \<^verbatim>\<open>null\<close> or the empty string) one run of the
  effect is the single statement \<^verbatim>\<open>setResults([])\<close>: the hook then returns an empty
  result list, no request reaches the backend, and neither \<^verbatim>\<open>loading\<close> nor \<^verbatim>\<open>error\<close> is
  written, so both keep the value they had (from the hook's initial state:
  \<^verbatim>\<open>loading\<close> false and \<^verbatim>\<open>error\<close> null). A request is issued only for a query that is
  not falsy. The same holds of the run whatever earlier requests are still in flight:
  it resets the results and leaves everything else, the requests in flight included, as
  it was.
\<close>

theorem falsy_query_no_request:
  assumes "falsy q"
  shows "results (useSearch fetchSearchResults st q) = [] \<and>
         backend_requests (search_effect fetchSearchResults q) = [] \<and>
         loading_transitions (search_effect fetchSearchResults q) = [] \<and>
         error_updates (search_effect fetchSearchResults q) = [] \<and>
         loading (useSearch fetchSearchResults st q) = loading st \<and>
         error (useSearch fetchSearchResults st q) = error st \<and>
         useSearch fetchSearchResults initial_state q = initial_state \<and>
         (\<forall>q'. backend_requests (search_effect fetchSearchResults q') \<noteq> [] \<longrightarrow> \<not> falsy q') \<and>
         hook_step h (Run q) = h\<lparr>hook_state := (hook_state h)\<lparr>results := []\<rparr>\<rparr>"
proof -
  have e: "search_effect fetchSearchResults q = [SetResults []]"
    using assms by (rule search_effect_falsy)
  have i: "useSearch fetchSearchResults initial_state q = initial_state"
    by (simp add: useSearch_alone e initial_state_def)
  have r: "\<forall>q'. backend_requests (search_effect fetchSearchResults q') \<noteq> [] \<longrightarrow> \<not> falsy q'"
    by (simp add: backend_requests_iff)
  have s: "hook_step h (Run q) = h\<lparr>hook_state := (hook_state h)\<lparr>results := []\<rparr>\<rparr>"
    using assms by (rule run_falsy)
  show ?thesis
    using i r s by (simp add: useSearch_alone e)
qed

theorem falsy_query_no_request_witness:
  "falsy (Str []) \<and>
   useSearch (\<lambda>q. Inr [1::nat]) \<lparr>results = [4, 2], loading = False, error = None :: string option\<rparr> (Str [])
     = \<lparr>results = [], loading = False, error = None\<rparr> \<and>
   backend_requests (search_effect (\<lambda>q. Inr [1::nat] :: string option + nat list) (Str [])) = [] \<and>
   hook_step \<lparr>hook_state = \<lparr>results = [4, 2::nat], loading = True, error = Some ''old''\<rparr>,
              in_flight = [Str ''pcie'']\<rparr> (Run (Str []))
     = \<lparr>hook_state = \<lparr>results = [], loading = True, error = Some ''old''\<rparr>,
        in_flight = [Str ''pcie'']\<rparr>"
proof -
  have f: "falsy (Str [])" by simp
  from falsy_query_no_request [OF f,
      where fetchSearchResults = "\<lambda>q. Inr [1::nat] :: string option + nat list"
      and st = "\<lparr>results = [4, 2], loading = False, error = None\<rparr>"
      and h = "\<lparr>hook_state = \<lparr>results = [4, 2::nat], loading = True, error = Some ''old''\<rparr>,
                in_flight = [Str ''pcie'']\<rparr>"]
  show ?thesis
    by (simp add: useSearch_alone search_effect_def effect_start_def)
qed

section \<open>Properties of the modelled store\<close>

lemma find_map_update:
  assumes "\<And>r. doc_hash (f r) = doc_hash r"
  shows "find (\<lambda>d. doc_hash d = h') (map (\<lambda>r. if doc_hash r = h then f r else r) rows) =
         (if h' = h then map_option f (find (\<lambda>d. doc_hash d = h) rows)
          else find (\<lambda>d. doc_hash d = h') rows)"
  by (induction rows) (auto simp: assms)

lemma get_by_hash_update_status:
  "get_by_hash (snd (update_status rows h s err)) h' =
     (if h' = h
      then map_option (\<lambda>d. if stale (doc_status d) s then d
                             else d\<lparr>doc_status := s, error_detail := err\<rparr>) (get_by_hash rows h)
      else get_by_hash rows h')"
proof (cases "get_by_hash rows h")
  case None
  then show ?thesis by (simp add: update_status_def)
next
  case (Some d)
  show ?thesis
  proof (cases "stale (doc_status d) s")
    case True
    with Some show ?thesis by (simp add: update_status_def)
  next
    case False
    have "find (\<lambda>d. doc_hash d = h')
            (map (\<lambda>r. if doc_hash r = h then r\<lparr>doc_status := s, error_detail := err\<rparr> else r) rows) =
          (if h' = h
           then map_option (\<lambda>r. r\<lparr>doc_status := s, error_detail := err\<rparr>) (find (\<lambda>d. doc_hash d = h) rows)
           else find (\<lambda>d. doc_hash d = h') rows)"
      by (rule find_map_update) simp
    with Some False show ?thesis
      by (simp add: update_status_def get_by_hash_def)
  qed
qed

lemma hashes_update_status: "map doc_hash (snd (update_status rows h s err)) = map doc_hash rows"
  by (auto simp: update_status_def split: option.splits)

lemma get_by_hash_None: "get_by_hash rows h = None \<longleftrightarrow> h \<notin> set (map doc_hash rows)"
  by (auto simp: get_by_hash_def find_None_iff)

lemma get_by_hash_Some: "get_by_hash rows h = Some d \<Longrightarrow> doc_hash d = h \<and> d \<in> set rows"
  by (auto simp: get_by_hash_def find_Some_iff)

lemma hashes_upsert_document:
  "map doc_hash (upsert_document rows d) =
     (if get_by_hash rows (doc_hash d) = None then map doc_hash rows @ [doc_hash d]
      else map doc_hash rows)"
  by (auto simp: upsert_document_def)

lemma get_by_hash_upsert_document:
  "get_by_hash (upsert_document rows d) (doc_hash d) = Some d"
proof (cases "get_by_hash rows (doc_hash d)")
  case None
  then have "find (\<lambda>r. doc_hash r = doc_hash d) rows = None"
    by (simp add: get_by_hash_def)
  then have "find (\<lambda>r. doc_hash r = doc_hash d) (rows @ [d]) = Some d"
    by (induction rows) (auto split: if_splits)
  then show ?thesis
    using None by (simp add: upsert_document_def get_by_hash_def)
next
  case (Some r)
  have "find (\<lambda>x. doc_hash x = doc_hash d)
          (map (\<lambda>r. if doc_hash r = doc_hash d then d else r) rows) = Some d"
    using Some unfolding get_by_hash_def by (induction rows) (auto split: if_splits)
  with Some show ?thesis
    by (simp add: upsert_document_def get_by_hash_def)
qed

lemma distinct_upsert_document:
  "distinct (map doc_hash rows) \<Longrightarrow> distinct (map doc_hash (upsert_document rows d))"
  by (simp add: hashes_upsert_document get_by_hash_None)

lemma filter_single:
  "find P xs = Some d \<Longrightarrow> length (filter P xs) = 1 \<Longrightarrow> filter P xs = [d]"
  by (induction xs) (auto split: if_splits)

lemma length_filter_hash:
  "length (filter (\<lambda>d. doc_hash d = h) rows) = length (filter (\<lambda>x. x = h) (map doc_hash rows))"
  by (simp add: filter_map comp_def)

lemma one_record:
  assumes "map doc_hash rows = hs @ [h]" and "h \<notin> set hs" and "get_by_hash rows h = Some d"
  shows "filter (\<lambda>r. doc_hash r = h) rows = [d]"
proof -
  have "filter (\<lambda>x. x = h) hs = []"
    using assms(2) by (induction hs) auto
  then have "length (filter (\<lambda>r. doc_hash r = h) rows) = 1"
    by (simp add: length_filter_hash assms(1))
  with assms(3) show ?thesis
    unfolding get_by_hash_def by (rule filter_single)
qed

subsection \<open>Status updates\<close>

lemma stale_regress: "rank new < rank cur \<Longrightarrow> stale cur new"
  by (simp add: stale_def)

lemma not_stale_advances: "\<not> stale cur new \<Longrightarrow> \<not> terminal cur \<and> rank cur \<le> rank new"
  by (simp add: stale_def)

lemma failed_not_stale: "\<not> terminal cur \<Longrightarrow> \<not> stale cur Failed"
  by (cases cur) (simp_all add: stale_def terminal_def)

lemma chain_not_stale:
  "\<not> stale Received Extracting" "\<not> stale Extracting Chunking" "\<not> stale Chunking Embedding"
  "\<not> stale Embedding Embedding" "\<not> stale Embedding Indexed"
  by (simp_all add: stale_def terminal_def)

lemma update_status_rejected:
  "get_by_hash rows h = Some d \<Longrightarrow> stale (doc_status d) new \<Longrightarrow>
   update_status rows h new err = (Some StaleStatusTransition, rows)"
  by (simp add: update_status_def)

lemma update_status_accepted:
  "get_by_hash rows h = Some d \<Longrightarrow> \<not> stale (doc_status d) new \<Longrightarrow>
   fst (update_status rows h new err) = None \<and>
   get_by_hash (snd (update_status rows h new err)) h = Some (d\<lparr>doc_status := new, error_detail := err\<rparr>)"
  by (simp add: get_by_hash_update_status) (simp add: update_status_def)

lemma update_status_step:
  assumes "get_by_hash rows h = Some d"
  shows "\<exists>d'. get_by_hash (snd (update_status rows h' s err)) h = Some d' \<and>
              rank (doc_status d) \<le> rank (doc_status d') \<and>
              (terminal (doc_status d) \<longrightarrow> doc_status d' = doc_status d)"
proof (cases "h = h' \<and> \<not> stale (doc_status d) s")
  case True
  then have "get_by_hash (snd (update_status rows h' s err)) h =
      Some (d\<lparr>doc_status := s, error_detail := err\<rparr>)"
    using assms by (simp add: get_by_hash_update_status)
  moreover from True have "rank (doc_status d) \<le> rank s" and "\<not> terminal (doc_status d)"
    by (simp_all add: stale_def)
  ultimately show ?thesis by simp
next
  case False
  then have "get_by_hash (snd (update_status rows h' s err)) h = Some d"
    using assms by (auto simp: get_by_hash_update_status)
  then show ?thesis by simp
qed

lemma apply_updates_monotone:
  assumes "get_by_hash rows h = Some d"
  shows "\<exists>d'. get_by_hash (apply_updates rows us) h = Some d' \<and>
              rank (doc_status d) \<le> rank (doc_status d') \<and>
              (terminal (doc_status d) \<longrightarrow> doc_status d' = doc_status d)"
  using assms
proof (induction us arbitrary: rows d)
  case Nil
  then show ?case by simp
next
  case (Cons u us)
  obtain h' s err where u: "u = (h', s, err)"
    by (cases u) auto
  from update_status_step [OF Cons.prems] obtain d1 where
    d1: "get_by_hash (snd (update_status rows h' s err)) h = Some d1"
      "rank (doc_status d) \<le> rank (doc_status d1)"
      "terminal (doc_status d) \<longrightarrow> doc_status d1 = doc_status d"
    by blast
  from Cons.IH [OF d1(1)] obtain d' where
    d': "get_by_hash (apply_updates (snd (update_status rows h' s err)) us) h = Some d'"
      "rank (doc_status d1) \<le> rank (doc_status d')"
      "terminal (doc_status d1) \<longrightarrow> doc_status d' = doc_status d1"
    by blast
  from d1 d' have "rank (doc_status d) \<le> rank (doc_status d')"
    and "terminal (doc_status d) \<longrightarrow> doc_status d' = doc_status d"
    by auto
  with d'(1) u show ?case by simp
qed

text \<open>
  C6, on the modelled store. For the stored document of a hash and any update of its
  status: an update that would take it to an earlier state of the chain, or out of
  \<^verbatim>\<open>indexed\<close> or \<^verbatim>\<open>failed\<close>, is rejected with \<^verbatim>\<open>StaleStatusTransition\<close> and the table is
  left as it was; an update that is accepted starts from a non-terminal state and does
  not lower the rank; \<^verbatim>\<open>failed\<close> is accepted from every non-terminal state; and after any
  sequence of updates the status is at least as far along the chain as before, and is
  the same when it was terminal.
\<close>

theorem status_only_advances:
  assumes "get_by_hash rows h = Some d"
  shows "(rank new < rank (doc_status d) \<longrightarrow>
            update_status rows h new err = (Some StaleStatusTransition, rows)) \<and>
         (terminal (doc_status d) \<longrightarrow>
            update_status rows h new err = (Some StaleStatusTransition, rows)) \<and>
         (fst (update_status rows h new err) = None \<longrightarrow>
            \<not> terminal (doc_status d) \<and> rank (doc_status d) \<le> rank new \<and>
            get_by_hash (snd (update_status rows h new err)) h =
              Some (d\<lparr>doc_status := new, error_detail := err\<rparr>)) \<and>
         (fst (update_status rows h new err) \<noteq> None \<longrightarrow>
            update_status rows h new err = (Some StaleStatusTransition, rows)) \<and>
         (\<not> terminal (doc_status d) \<longrightarrow> fst (update_status rows h Failed msg) = None) \<and>
         (\<exists>d'. get_by_hash (apply_updates rows us) h = Some d' \<and>
               rank (doc_status d) \<le> rank (doc_status d') \<and>
               (terminal (doc_status d) \<longrightarrow> doc_status d' = doc_status d))"
proof -
  have a: "rank new < rank (doc_status d) \<longrightarrow>
      update_status rows h new err = (Some StaleStatusTransition, rows)"
    using assms by (simp add: update_status_rejected stale_regress)
  have b: "terminal (doc_status d) \<longrightarrow>
      update_status rows h new err = (Some StaleStatusTransition, rows)"
    using assms by (simp add: update_status_rejected stale_def)
  have c: "fst (update_status rows h new err) = None \<longrightarrow>
      \<not> terminal (doc_status d) \<and> rank (doc_status d) \<le> rank new \<and>
      get_by_hash (snd (update_status rows h new err)) h =
        Some (d\<lparr>doc_status := new, error_detail := err\<rparr>)"
  proof (cases "stale (doc_status d) new")
    case True
    with assms show ?thesis by (simp add: update_status_rejected)
  next
    case False
    with assms show ?thesis
      using not_stale_advances [OF False] update_status_accepted [OF assms False] by simp
  qed
  have e: "fst (update_status rows h new err) \<noteq> None \<longrightarrow>
      update_status rows h new err = (Some StaleStatusTransition, rows)"
    using assms by (simp add: update_status_def)
  have f: "\<not> terminal (doc_status d) \<longrightarrow> fst (update_status rows h Failed msg) = None"
    using assms update_status_accepted failed_not_stale by blast
  from a b c e f apply_updates_monotone [OF assms] show ?thesis
    by blast
qed

theorem status_only_advances_witness:
  "get_by_hash example_rows ''h1'' = Some (hd example_rows) \<and>
   update_status example_rows ''h1'' Extracting None = (Some StaleStatusTransition, example_rows) \<and>
   fst (update_status example_rows ''h1'' Failed (Some ''index write failed'')) = None \<and>
   map doc_status (apply_updates example_rows
      [(''h1'', Chunking, None), (''h1'', Indexed, None), (''h1'', Received, None)]) = [Indexed]"
proof -
  have g: "get_by_hash example_rows ''h1'' = Some (hd example_rows)"
    by (simp add: example_rows_def get_by_hash_def)
  have r: "rank Extracting < rank (doc_status (hd example_rows))"
    "\<not> terminal (doc_status (hd example_rows))"
    by (simp_all add: example_rows_def terminal_def)
  have s: "map doc_status (apply_updates example_rows
      [(''h1'', Chunking, None), (''h1'', Indexed, None), (''h1'', Received, None)]) = [Indexed]"
    by (simp add: example_rows_def update_status_def get_by_hash_def stale_def terminal_def)
  note t = status_only_advances [OF g, where new = Extracting and err = None
      and msg = "Some ''index write failed''" and us = "[]"]
  from t r(1) have a: "update_status example_rows ''h1'' Extracting None =
      (Some StaleStatusTransition, example_rows)"
    by (elim conjE) (erule mp)
  from t r(2) have b: "fst (update_status example_rows ''h1'' Failed (Some ''index write failed'')) = None"
    by (elim conjE) (erule mp)
  from g a b s show ?thesis
    by (intro conjI)
qed

section \<open>Properties of the modelled coordinator\<close>

subsection \<open>The index\<close>

lemma upsert_fresh: "cid \<notin> fst ` set idx \<Longrightarrow> upsert idx cid v = idx @ [(cid, v)]"
  by (induction idx) auto

lemma keys_upsert: "fst ` set (upsert idx cid v) = insert cid (fst ` set idx)"
  by (induction idx cid v rule: upsert.induct) auto

lemma distinct_upsert: "distinct (map fst idx) \<Longrightarrow> distinct (map fst (upsert idx cid v))"
proof (induction idx)
  case Nil
  then show ?case by simp
next
  case (Cons e idx)
  obtain k w where e: "e = (k, w)" by (cases e)
  have "k \<noteq> cid \<Longrightarrow> k \<notin> fst ` set (upsert idx cid v)"
    using Cons.prems e by (simp add: keys_upsert)
  with Cons e show ?case by auto
qed

lemma distinct_upsert_all:
  "distinct (map fst idx) \<Longrightarrow> distinct (map fst (upsert_all idx h i vs))"
  by (induction vs arbitrary: idx i) (simp_all add: distinct_upsert)

lemma distinct_delete_by_document:
  "distinct (map fst idx) \<Longrightarrow> distinct (map fst (delete_by_document idx h))"
  by (simp add: delete_by_document_def distinct_map_filter)

lemma upsert_all_fresh:
  assumes "\<forall>e \<in> set idx. fst (fst e) = h \<longrightarrow> snd (fst e) < i"
  shows "upsert_all idx h i vs = idx @ map (\<lambda>(j, v). ((h, j), v)) (enumerate i vs)"
  using assms
proof (induction vs arbitrary: idx i)
  case Nil
  then show ?case by simp
next
  case (Cons v vs)
  have "(h, i) \<notin> fst ` set idx"
    using Cons.prems by force
  then have u: "upsert idx (h, i) v = idx @ [((h, i), v)]"
    by (rule upsert_fresh)
  have "\<forall>e \<in> set (idx @ [((h, i), v)]). fst (fst e) = h \<longrightarrow> snd (fst e) < Suc i"
    using Cons.prems by (auto simp: less_Suc_eq)
  from Cons.IH [OF this] u show ?case
    by simp
qed

lemma chunks_of_commit:
  "chunks_of (upsert_all (delete_by_document idx h) h 0 vs) h =
   map (\<lambda>(j, v). ((h, j), v)) (enumerate 0 vs)"
proof -
  have "\<forall>e \<in> set (delete_by_document idx h). fst (fst e) = h \<longrightarrow> snd (fst e) < 0"
    by (simp add: delete_by_document_def)
  then have "upsert_all (delete_by_document idx h) h 0 vs =
      delete_by_document idx h @ map (\<lambda>(j, v). ((h, j), v)) (enumerate 0 vs)"
    by (rule upsert_all_fresh)
  moreover have "filter (\<lambda>e. fst (fst e) = h) (delete_by_document idx h) = []"
    by (simp add: delete_by_document_def filter_empty_conv)
  moreover have "filter (\<lambda>e. fst (fst e) = h) (map (\<lambda>(j, v). ((h, j), v)) (enumerate 0 vs)) =
      map (\<lambda>(j, v). ((h, j), v)) (enumerate 0 vs)"
    by (simp add: filter_id_conv split_beta)
  ultimately show ?thesis
    by (simp add: chunks_of_def)
qed

subsection \<open>The pipeline\<close>

lemma begin_stage_fields:
  "store (begin_stage h st c) = snd (update_status (store c) h (status_during st) None)"
  "vindex (begin_stage h st c) = vindex c"
  "queue (begin_stage h st c) = queue c"
  "stage_log (begin_stage h st c) = stage_log c @ [(h, st)]"
  by (simp_all add: begin_stage_def set_status_def)

lemma set_status_fields:
  "store (set_status c h s err) = snd (update_status (store c) h s err)"
  "vindex (set_status c h s err) = vindex c"
  "queue (set_status c h s err) = queue c"
  "stage_log (set_status c h s err) = stage_log c"
  by (simp_all add: set_status_def)

lemma commit_fields:
  "store (commit c h vs) = store c"
  "vindex (commit c h vs) = upsert_all (delete_by_document (vindex c) h) h 0 vs"
  "queue (commit c h vs) = queue c"
  "stage_log (commit c h vs) = stage_log c"
  by (simp_all add: commit_def)

lemma fold_begin_stage_frame:
  "vindex (fold (begin_stage h) sts c) = vindex c"
  "queue (fold (begin_stage h) sts c) = queue c"
  "stage_log (fold (begin_stage h) sts c) = stage_log c @ map (Pair h) sts"
  "map doc_hash (store (fold (begin_stage h) sts c)) = map doc_hash (store c)"
  by (induction sts arbitrary: c) (simp_all add: begin_stage_fields hashes_update_status)

lemma run_pipeline_frame:
  "queue (run_pipeline P c h b) = queue c"
  "map doc_hash (store (run_pipeline P c h b)) = map doc_hash (store c)"
  "stage_log (run_pipeline P c h b) =
     stage_log c @ map (Pair h) (case P b of Fails st msg \<Rightarrow> stages_upto st
                                  | Produces vs \<Rightarrow> stages_upto Index)"
  by (simp_all add: run_pipeline_def set_status_fields commit_fields fold_begin_stage_frame
      hashes_update_status del: stages_upto.simps split: outcome.splits)

lemma run_pipeline_vindex:
  "vindex (run_pipeline P c h b) =
     (case P b of Fails st msg \<Rightarrow> vindex c
      | Produces vs \<Rightarrow> upsert_all (delete_by_document (vindex c) h) h 0 vs)"
  by (simp add: run_pipeline_def set_status_fields commit_fields fold_begin_stage_frame
      del: stages_upto.simps split: outcome.splits)

lemma status_after_stages:
  assumes "get_by_hash (store c) h = Some d" and "doc_status d = Received"
  shows "get_by_hash (store (fold (begin_stage h) (stages_upto st) c)) h =
         Some (d\<lparr>doc_status := status_during st, error_detail := None\<rparr>)"
  using assms
  by (cases st)
     (simp_all add: begin_stage_fields get_by_hash_update_status stale_def terminal_def)

lemma run_pipeline_status:
  assumes "get_by_hash (store c) h = Some d" and "doc_status d = Received"
  shows "get_by_hash (store (run_pipeline P c h b)) h =
         Some (case P b of
                 Fails st msg \<Rightarrow> d\<lparr>doc_status := Failed, error_detail := Some msg\<rparr>
               | Produces vs \<Rightarrow> d\<lparr>doc_status := Indexed, error_detail := None\<rparr>)"
proof (cases "P b")
  case (Fails st msg)
  have "\<not> stale (status_during st) Failed"
    by (cases st) (simp_all add: stale_def terminal_def)
  with Fails status_after_stages [OF assms, of st] show ?thesis
    by (simp add: run_pipeline_def set_status_fields get_by_hash_update_status)
next
  case (Produces vs)
  with status_after_stages [OF assms, of Index] show ?thesis
    by (simp add: run_pipeline_def set_status_fields commit_fields get_by_hash_update_status
        stale_def terminal_def)
qed

subsection \<open>Uploads\<close>

lemma upload_indexed:
  "get_by_hash (store c) (H b) = Some d \<Longrightarrow> doc_status d = Indexed \<Longrightarrow>
   upload H c fname b = (d, c)"
  by (simp add: upload_def)

lemma upload_in_flight:
  "get_by_hash (store c) (H b) = Some d \<Longrightarrow> \<not> terminal (doc_status d) \<Longrightarrow>
   upload H c fname b = (d, c)"
  by (simp add: upload_def terminal_def)

lemma upload_failed:
  "get_by_hash (store c) (H b) = Some d \<Longrightarrow> doc_status d = Failed \<Longrightarrow>
   upload H c fname b = accept_upload c (H b) fname b"
  by (simp add: upload_def)

lemma upload_new:
  "get_by_hash (store c) (H b) = None \<Longrightarrow> upload H c fname b = accept_upload c (H b) fname b"
  by (simp add: upload_def)

lemma accept_upload_fields:
  "fst (accept_upload c h fname b) =
     \<lparr>doc_hash = h, filename = fname, doc_size = length b, doc_status = Received,
      error_detail = None\<rparr>"
  "store (snd (accept_upload c h fname b)) =
     upsert_document (store c) (fst (accept_upload c h fname b))"
  "vindex (snd (accept_upload c h fname b)) = vindex c"
  "queue (snd (accept_upload c h fname b)) = queue c @ [(h, b)]"
  "stage_log (snd (accept_upload c h fname b)) = stage_log c"
  by (simp_all add: accept_upload_def Let_def)

lemma accept_upload_recorded:
  "get_by_hash (store (snd (accept_upload c h fname b))) h = Some (fst (accept_upload c h fname b))"
proof -
  have "doc_hash (fst (accept_upload c h fname b)) = h"
    by (simp add: accept_upload_fields)
  with get_by_hash_upsert_document [of "store c" "fst (accept_upload c h fname b)"]
  show ?thesis
    by (simp add: accept_upload_fields(2))
qed

lemma upload_cases:
  "upload H c fname b = accept_upload c (H b) fname b \<or> snd (upload H c fname b) = c"
  by (auto simp: upload_def Let_def split: option.splits)

subsection \<open>One record per hash and one entry per chunk identity, whatever happens\<close>

lemma upload_keeps_distinct:
  assumes "distinct (map doc_hash (store c))" and "distinct (map fst (vindex c))"
  shows "distinct (map doc_hash (store (snd (upload H c fname b)))) \<and>
         distinct (map fst (vindex (snd (upload H c fname b))))"
  using upload_cases [of H c fname b] assms
  by (auto simp: accept_upload_fields distinct_upsert_document)

lemma process_next_keeps_distinct:
  assumes "distinct (map doc_hash (store c))" and "distinct (map fst (vindex c))"
  shows "distinct (map doc_hash (store (process_next P c))) \<and>
         distinct (map fst (vindex (process_next P c)))"
proof (cases "queue c")
  case Nil
  with assms show ?thesis by (simp add: process_next_def)
next
  case (Cons x rest)
  obtain h b where x: "x = (h, b)" by (cases x)
  have p: "process_next P c = run_pipeline P (c\<lparr>queue := rest\<rparr>) h b"
    using Cons x by (simp add: process_next_def)
  have "distinct (map fst (vindex (run_pipeline P (c\<lparr>queue := rest\<rparr>) h b)))"
    using assms(2)
    by (simp add: run_pipeline_vindex distinct_upsert_all distinct_delete_by_document
        split: outcome.splits)
  with assms(1) p show ?thesis
    by (simp add: run_pipeline_frame)
qed

lemma run_events_keeps_distinct:
  assumes "distinct (map doc_hash (store c))" and "distinct (map fst (vindex c))"
  shows "distinct (map doc_hash (store (run_events H P c es))) \<and>
         distinct (map fst (vindex (run_events H P c es)))"
  using assms
proof (induction es arbitrary: c)
  case Nil
  then show ?case by simp
next
  case (Cons e es)
  show ?case
  proof (cases e)
    case (Upload fname b)
    from upload_keeps_distinct [OF Cons.prems, of H fname b] Cons.IH Upload show ?thesis
      by simp
  next
    case Work
    from process_next_keeps_distinct [OF Cons.prems, of P] Cons.IH Work show ?thesis
      by simp
  qed
qed

lemma reachable_distinct:
  "distinct (map doc_hash (store (run_events H P empty_coordinator es))) \<and>
   distinct (map fst (vindex (run_events H P empty_coordinator es)))"
  by (rule run_events_keeps_distinct) (simp_all add: empty_coordinator_def)

subsection \<open>Upload, processing, upload again\<close>

lemma accept_then_work:
  fixes c :: "'c coordinator" and fname :: string and P :: "bytes \<Rightarrow> 'c outcome"
    and h :: hash and b :: bytes
  assumes idle: "queue c = []"
  defines "d0 \<equiv> \<lparr>doc_hash = h, filename = fname, doc_size = length b,
                   doc_status = Received, error_detail = None\<rparr>"
  defines "c2 \<equiv> process_next P (snd (accept_upload c h fname b))"
  shows "get_by_hash (store c2) h =
           Some (case P b of
                   Fails st msg \<Rightarrow> d0\<lparr>doc_status := Failed, error_detail := Some msg\<rparr>
                 | Produces vs \<Rightarrow> d0\<lparr>doc_status := Indexed, error_detail := None\<rparr>)"
    and "map doc_hash (store c2) = map doc_hash (upsert_document (store c) d0)"
    and "vindex c2 = (case P b of Fails st msg \<Rightarrow> vindex c
                      | Produces vs \<Rightarrow> upsert_all (delete_by_document (vindex c) h) h 0 vs)"
    and "stage_log c2 = stage_log c @ map (Pair h)
           (case P b of Fails st msg \<Rightarrow> stages_upto st | Produces vs \<Rightarrow> stages_upto Index)"
    and "queue c2 = []"
proof -
  let ?c1 = "snd (accept_upload c h fname b)"
  have q: "queue ?c1 = [(h, b)]"
    by (simp add: accept_upload_fields idle)
  have c2: "c2 = run_pipeline P (?c1\<lparr>queue := []\<rparr>) h b"
    by (simp add: c2_def process_next_def q)
  have g: "get_by_hash (store (?c1\<lparr>queue := []\<rparr>)) h = Some d0"
    using accept_upload_recorded [of c h fname b] by (simp add: accept_upload_fields d0_def)
  have r: "doc_status d0 = Received"
    by (simp add: d0_def)
  show "get_by_hash (store c2) h =
           Some (case P b of
                   Fails st msg \<Rightarrow> d0\<lparr>doc_status := Failed, error_detail := Some msg\<rparr>
                 | Produces vs \<Rightarrow> d0\<lparr>doc_status := Indexed, error_detail := None\<rparr>)"
    unfolding c2 using g r by (rule run_pipeline_status)
  show "map doc_hash (store c2) = map doc_hash (upsert_document (store c) d0)"
    by (simp add: c2 run_pipeline_frame accept_upload_fields d0_def)
  show "vindex c2 = (case P b of Fails st msg \<Rightarrow> vindex c
                      | Produces vs \<Rightarrow> upsert_all (delete_by_document (vindex c) h) h 0 vs)"
    by (simp add: c2 run_pipeline_vindex accept_upload_fields split: outcome.splits)
  show "stage_log c2 = stage_log c @ map (Pair h)
           (case P b of Fails st msg \<Rightarrow> stages_upto st | Produces vs \<Rightarrow> stages_upto Index)"
    by (simp add: c2 run_pipeline_frame accept_upload_fields del: stages_upto.simps)
  show "queue c2 = []"
    by (simp add: c2 run_pipeline_frame)
qed

lemma indexed_hello_eq:
  "process_next two_chunks (snd (upload sha empty_coordinator ''a.txt'' ''hello'')) = indexed_hello"
  by (simp add: process_next_def upload_def accept_upload_def empty_coordinator_def sha_def
      get_by_hash_def upsert_document_def run_pipeline_def two_chunks_def begin_stage_def
      set_status_def update_status_def stale_def terminal_def commit_def delete_by_document_def
      indexed_hello_def Let_def)

text \<open>
  C3, on the modelled coordinator of one domain. An upload whose content hash has a
  record in state \<^verbatim>\<open>indexed\<close> returns that record and leaves the coordinator as it was:
  nothing is queued and no stage is run. When bytes with a new hash are uploaded to an
  idle coordinator, processed with success and uploaded again, the second upload changes
  nothing, the store holds exactly one record for the hash, which is \<^verbatim>\<open>indexed\<close>, the
  index holds exactly the chunks of the one run under that hash, and each stage was run
  once. Whatever uploads and worker steps reach an empty coordinator, no two records
  share a hash and no two index entries share a chunk identity.
\<close>

theorem second_upload_is_noop:
  "(\<forall>d. get_by_hash (store c) (H b) = Some d \<and> doc_status d = Indexed \<longrightarrow>
        upload H c fname b = (d, c)) \<and>
   (get_by_hash (store c) (H b) = None \<and> queue c = [] \<and> P b = Produces vs \<longrightarrow>
      snd (upload H (process_next P (snd (upload H c fname b))) fname' b) =
        process_next P (snd (upload H c fname b)) \<and>
      filter (\<lambda>d. doc_hash d = H b)
          (store (snd (upload H (process_next P (snd (upload H c fname b))) fname' b))) =
        [fst (upload H (process_next P (snd (upload H c fname b))) fname' b)] \<and>
      doc_status (fst (upload H (process_next P (snd (upload H c fname b))) fname' b)) = Indexed \<and>
      chunks_of (vindex (snd (upload H (process_next P (snd (upload H c fname b))) fname' b))) (H b) =
        map (\<lambda>(i, v). ((H b, i), v)) (enumerate 0 vs) \<and>
      stage_log (snd (upload H (process_next P (snd (upload H c fname b))) fname' b)) =
        stage_log c @ map (Pair (H b)) [Extract, Chunk, Embed, Index]) \<and>
   distinct (map doc_hash (store (run_events H P empty_coordinator es))) \<and>
   distinct (map fst (vindex (run_events H P empty_coordinator es)))"
proof -
  have a: "\<forall>d. get_by_hash (store c) (H b) = Some d \<and> doc_status d = Indexed \<longrightarrow>
      upload H c fname b = (d, c)"
    by (simp add: upload_indexed)
  have b: "snd (upload H (process_next P (snd (upload H c fname b))) fname' b) =
        process_next P (snd (upload H c fname b)) \<and>
      filter (\<lambda>d. doc_hash d = H b)
          (store (snd (upload H (process_next P (snd (upload H c fname b))) fname' b))) =
        [fst (upload H (process_next P (snd (upload H c fname b))) fname' b)] \<and>
      doc_status (fst (upload H (process_next P (snd (upload H c fname b))) fname' b)) = Indexed \<and>
      chunks_of (vindex (snd (upload H (process_next P (snd (upload H c fname b))) fname' b))) (H b) =
        map (\<lambda>(i, v). ((H b, i), v)) (enumerate 0 vs) \<and>
      stage_log (snd (upload H (process_next P (snd (upload H c fname b))) fname' b)) =
        stage_log c @ map (Pair (H b)) [Extract, Chunk, Embed, Index]"
    if new: "get_by_hash (store c) (H b) = None" and idle: "queue c = []"
      and ok: "P b = Produces vs"
  proof -
    let ?c2 = "process_next P (snd (upload H c fname b))"
    let ?d0 = "\<lparr>doc_hash = H b, filename = fname, doc_size = length b,
                 doc_status = Received, error_detail = None\<rparr>"
    let ?d2 = "?d0\<lparr>doc_status := Indexed, error_detail := None\<rparr>"
    have u1: "upload H c fname b = accept_upload c (H b) fname b"
      using new by (rule upload_new)
    note w = accept_then_work [where h = "H b" and b = b and c = c and fname = fname
        and P = P, OF idle, folded u1]
    have hs: "map doc_hash (store ?c2) = map doc_hash (store c) @ [H b]"
      using new by (simp add: w(2) hashes_upsert_document)
    have g: "get_by_hash (store ?c2) (H b) = Some ?d2"
      using w(1) by (simp add: ok)
    have u: "upload H ?c2 fname' b = (?d2, ?c2)"
      using g by (rule upload_indexed) simp
    have one: "filter (\<lambda>d. doc_hash d = H b) (store ?c2) = [?d2]"
      using hs _ g
    proof (rule one_record)
      show "H b \<notin> set (map doc_hash (store c))"
        using new by (simp add: get_by_hash_None)
    qed
    have ch: "chunks_of (vindex ?c2) (H b) = map (\<lambda>(i, v). ((H b, i), v)) (enumerate 0 vs)"
      by (simp add: w(3) ok chunks_of_commit)
    have lg: "stage_log ?c2 = stage_log c @ map (Pair (H b)) [Extract, Chunk, Embed, Index]"
      by (simp add: w(4) ok)
    from one ch lg show ?thesis
      unfolding u by simp
  qed
  from a b reachable_distinct [of H P es] show ?thesis
    by blast
qed

theorem second_upload_is_noop_witness:
  "get_by_hash (store (empty_coordinator :: string coordinator)) (sha ''hello'') = None \<and>
   queue (empty_coordinator :: string coordinator) = [] \<and>
   two_chunks ''hello'' = Produces [''he'', ''llo''] \<and>
   process_next two_chunks (snd (upload sha empty_coordinator ''a.txt'' ''hello'')) = indexed_hello \<and>
   snd (upload sha indexed_hello ''b.txt'' ''hello'') = indexed_hello \<and>
   doc_status (fst (upload sha indexed_hello ''b.txt'' ''hello'')) = Indexed \<and>
   chunks_of (vindex (snd (upload sha indexed_hello ''b.txt'' ''hello''))) (sha ''hello'') =
     [((''sha:hello'', 0), ''he''), ((''sha:hello'', 1), ''llo'')]"
proof -
  have n: "get_by_hash (store (empty_coordinator :: string coordinator)) (sha ''hello'') = None"
    by (simp add: empty_coordinator_def get_by_hash_def)
  have q: "queue (empty_coordinator :: string coordinator) = []"
    by (simp add: empty_coordinator_def)
  have p: "two_chunks ''hello'' = Produces [''he'', ''llo'']"
    by (simp add: two_chunks_def)
  note t = second_upload_is_noop [where c = "empty_coordinator :: string coordinator"
      and H = sha and b = "''hello''" and P = two_chunks and vs = "[''he'', ''llo'']"
      and fname = "''a.txt''" and fname' = "''b.txt''" and es = "[]"]
  from t n q p have
    "snd (upload sha (process_next two_chunks (snd (upload sha empty_coordinator ''a.txt'' ''hello'')))
        ''b.txt'' ''hello'') =
      process_next two_chunks (snd (upload sha empty_coordinator ''a.txt'' ''hello'')) \<and>
     doc_status (fst (upload sha (process_next two_chunks
        (snd (upload sha empty_coordinator ''a.txt'' ''hello''))) ''b.txt'' ''hello'')) = Indexed \<and>
     chunks_of (vindex (snd (upload sha (process_next two_chunks
        (snd (upload sha empty_coordinator ''a.txt'' ''hello''))) ''b.txt'' ''hello''))) (sha ''hello'') =
      map (\<lambda>(i, v). ((sha ''hello'', i), v)) (enumerate 0 [''he'', ''llo''])"
    by (elim conjE) (intro conjI, (drule mp, intro conjI, assumption+, (elim conjE)?, assumption)+)
  then show ?thesis
    using n q p by (simp add: indexed_hello_eq) (simp add: sha_def indexed_hello_def chunks_of_def)
qed

text \<open>
  C4, on the modelled coordinator of one domain. When the record of the content hash is
  in state \<^verbatim>\<open>failed\<close>, an upload of the same bytes does not return the old record: the
  record is overwritten in state \<^verbatim>\<open>received\<close> and the upload is queued for the worker;
  the worker then runs the pipeline from its first stage, and when every stage
  succeeds the document ends \<^verbatim>\<open>indexed\<close> with the chunks of that run in the index.
  (For a record in state \<^verbatim>\<open>indexed\<close> the upload changes nothing: C3.)
\<close>

theorem failed_record_is_retried:
  assumes "get_by_hash (store c) (H b) = Some d" and "doc_status d = Failed"
  shows "doc_status (fst (upload H c fname b)) = Received \<and>
         get_by_hash (store (snd (upload H c fname b))) (H b) = Some (fst (upload H c fname b)) \<and>
         queue (snd (upload H c fname b)) = queue c @ [(H b, b)] \<and>
         (queue c = [] \<longrightarrow>
            stage_log (process_next P (snd (upload H c fname b))) =
              stage_log c @ map (Pair (H b))
                (case P b of Fails st msg \<Rightarrow> stages_upto st | Produces vs \<Rightarrow> stages_upto Index)) \<and>
         (queue c = [] \<and> P b = Produces vs \<longrightarrow>
            map_option doc_status
              (get_by_hash (store (process_next P (snd (upload H c fname b)))) (H b)) = Some Indexed \<and>
            chunks_of (vindex (process_next P (snd (upload H c fname b)))) (H b) =
              map (\<lambda>(i, v). ((H b, i), v)) (enumerate 0 vs))"
proof -
  have u: "upload H c fname b = accept_upload c (H b) fname b"
    using assms by (rule upload_failed)
  have a: "doc_status (fst (upload H c fname b)) = Received"
    by (simp add: u accept_upload_fields)
  have r: "get_by_hash (store (snd (upload H c fname b))) (H b) = Some (fst (upload H c fname b))"
    unfolding u by (rule accept_upload_recorded)
  have q: "queue (snd (upload H c fname b)) = queue c @ [(H b, b)]"
    by (simp add: u accept_upload_fields)
  have w: "stage_log (process_next P (snd (upload H c fname b))) =
        stage_log c @ map (Pair (H b))
          (case P b of Fails st msg \<Rightarrow> stages_upto st | Produces vs \<Rightarrow> stages_upto Index) \<and>
      (P b = Produces vs \<longrightarrow>
        map_option doc_status
          (get_by_hash (store (process_next P (snd (upload H c fname b)))) (H b)) = Some Indexed \<and>
        chunks_of (vindex (process_next P (snd (upload H c fname b)))) (H b) =
          map (\<lambda>(i, v). ((H b, i), v)) (enumerate 0 vs))"
    if idle: "queue c = []"
  proof -
    note t = accept_then_work [where h = "H b" and b = b and c = c and fname = fname
        and P = P, OF idle, folded u]
    have "P b = Produces vs \<longrightarrow>
        map_option doc_status
          (get_by_hash (store (process_next P (snd (upload H c fname b)))) (H b)) = Some Indexed \<and>
        chunks_of (vindex (process_next P (snd (upload H c fname b)))) (H b) =
          map (\<lambda>(i, v). ((H b, i), v)) (enumerate 0 vs)"
      by (simp add: t(1) t(3) chunks_of_commit)
    with t(4) show ?thesis by simp
  qed
  from a r q w show ?thesis
    by blast
qed

theorem failed_record_is_retried_witness:
  "get_by_hash (store failed_bad) (sha ''bad'') = Some (hd (store failed_bad)) \<and>
   doc_status (hd (store failed_bad)) = Failed \<and>
   doc_status (fst (upload sha failed_bad ''y.txt'' ''bad'')) = Received \<and>
   queue (snd (upload sha failed_bad ''y.txt'' ''bad'')) = [(''sha:bad'', ''bad'')] \<and>
   stage_log (snd (upload sha failed_bad ''y.txt'' ''bad'')) = [(''sha:bad'', Extract)] \<and>
   queue failed_bad = [] \<and>
   two_chunks ''bad'' = Produces [''he'', ''llo''] \<and>
   map_option doc_status
     (get_by_hash (store (process_next two_chunks (snd (upload sha failed_bad ''y.txt'' ''bad''))))
        (sha ''bad'')) = Some Indexed \<and>
   stage_log (process_next two_chunks (snd (upload sha failed_bad ''y.txt'' ''bad''))) =
     [(''sha:bad'', Extract), (''sha:bad'', Extract), (''sha:bad'', Chunk), (''sha:bad'', Embed),
      (''sha:bad'', Index)]"
proof -
  have g: "get_by_hash (store failed_bad) (sha ''bad'') = Some (hd (store failed_bad))"
    by (simp add: failed_bad_def get_by_hash_def sha_def)
  have f: "doc_status (hd (store failed_bad)) = Failed"
    by (simp add: failed_bad_def)
  have l: "stage_log (snd (upload sha failed_bad ''y.txt'' ''bad'')) = [(''sha:bad'', Extract)]"
    by (simp add: upload_failed [where H = sha and b = "''bad''", OF g f] accept_upload_fields)
      (simp add: failed_bad_def)
  have i: "queue failed_bad = []"
    by (simp add: failed_bad_def)
  have p: "two_chunks ''bad'' = Produces [''he'', ''llo'']"
    by (simp add: two_chunks_def)
  note t = failed_record_is_retried [where H = sha and b = "''bad''" and fname = "''y.txt''"
      and P = two_chunks and vs = "[''he'', ''llo'']", OF g f]
  from t i p have s: "map_option doc_status
     (get_by_hash (store (process_next two_chunks (snd (upload sha failed_bad ''y.txt'' ''bad''))))
        (sha ''bad'')) = Some Indexed"
    by simp
  from t i have "stage_log (process_next two_chunks (snd (upload sha failed_bad ''y.txt'' ''bad''))) =
     stage_log failed_bad @ map (Pair (sha ''bad''))
       (case two_chunks ''bad'' of Fails st msg \<Rightarrow> stages_upto st
        | Produces vs \<Rightarrow> stages_upto Index)"
    by simp
  then have w: "stage_log (process_next two_chunks (snd (upload sha failed_bad ''y.txt'' ''bad''))) =
     [(''sha:bad'', Extract), (''sha:bad'', Extract), (''sha:bad'', Chunk), (''sha:bad'', Embed),
      (''sha:bad'', Index)]"
    by (simp add: p failed_bad_def sha_def)
  from t have a: "doc_status (fst (upload sha failed_bad ''y.txt'' ''bad'')) = Received"
    by (elim conjE)
  from t have "queue (snd (upload sha failed_bad ''y.txt'' ''bad'')) =
      queue failed_bad @ [(sha ''bad'', ''bad'')]"
    by (elim conjE)
  then have q: "queue (snd (upload sha failed_bad ''y.txt'' ''bad'')) = [(''sha:bad'', ''bad'')]"
    by (simp add: failed_bad_def sha_def)
  from g f a q l i p s w show ?thesis
    by (intro conjI)
qed

end
